theory Spec2Isabelle
  imports Main
begin

section \<open>Constants of the game\<close>

text \<open>
  The module-level constants of the application. Player identifiers and the empty
  sentinel are JavaScript numbers that only ever hold integers, so they are \<open>int\<close>;
  sizes are used as array lengths and loop bounds, so they are \<open>nat\<close>.
\<close>

definition FIRST_PLAYER :: int where
  "FIRST_PLAYER = 1"

definition SECOND_PLAYER :: int where
  "SECOND_PLAYER = 2"

definition THIRD_PLAYER :: int where
  "THIRD_PLAYER = 3"

definition FOURTH_PLAYER :: int where
  "FOURTH_PLAYER = 4"

definition GRID_SIZE :: nat where
  "GRID_SIZE = 5"

definition PLAYGROUND_SIZE :: nat where
  "PLAYGROUND_SIZE = GRID_SIZE * GRID_SIZE"

definition EMPTY_CELL_VALUE :: int where
  "EMPTY_CELL_VALUE = 9"

definition DEFAULT_WINNER_TEXT :: string where
  "DEFAULT_WINNER_TEXT = ''No one has won yet.''"

section \<open>JavaScript values that the win scan handles\<close>

text \<open>
  Reading an array outside its bounds does not raise in JavaScript: it yields
  \<open>undefined\<close>. \<open>checkWinnerBatch\<close> returns either the first element of its batch or
  \<open>null\<close>. Both values are therefore part of the model.
\<close>

datatype jsval = Num int | Undefined | Null

text \<open>The element read \<open>buttons[i]\<close> for an integer index.\<close>

definition at :: "int list \<Rightarrow> int \<Rightarrow> jsval" where
  "at buttons i =
     (if 0 \<le> i \<and> i < int (length buttons) then Num (buttons ! nat i) else Undefined)"

text \<open>Truthiness, as tested by \<open>if (winnerPlayer)\<close>: \<open>null\<close>, \<open>undefined\<close> and \<open>0\<close> are falsy.\<close>

fun truthy :: "jsval \<Rightarrow> bool" where
  "truthy (Num n) = (n \<noteq> 0)"
| "truthy Undefined = False"
| "truthy Null = False"

text \<open>\<open>buttons.slice(b, e)\<close> for indices \<open>0 \<le> b \<le> e\<close>; the result is cut at the end of the array.\<close>

definition slice :: "int list \<Rightarrow> nat \<Rightarrow> nat \<Rightarrow> jsval list" where
  "slice buttons b e = map Num (take (e - b) (drop b buttons))"

section \<open>Turn rotation\<close>

text \<open>The updater function that \<open>incrementTurn\<close> hands to \<open>setTurn\<close>.\<close>

definition incrementTurn :: "int \<Rightarrow> int" where
  "incrementTurn prevTurn =
     (if prevTurn = FIRST_PLAYER then SECOND_PLAYER
      else if prevTurn = SECOND_PLAYER then THIRD_PLAYER
      else if prevTurn = THIRD_PLAYER then FOURTH_PLAYER
      else FIRST_PLAYER)"

section \<open>The winner text\<close>

definition digitChar :: "nat \<Rightarrow> char" where
  "digitChar d = ''0123456789'' ! d"

fun natToString :: "nat \<Rightarrow> string" where
  "natToString n =
     (if n < 10 then [digitChar n] else natToString (n div 10) @ [digitChar (n mod 10)])"

declare natToString.simps [simp del]

text \<open>The string that a template literal produces for a value.\<close>

fun toString :: "jsval \<Rightarrow> string" where
  "toString (Num k) = (if k < 0 then CHR ''-'' # natToString (nat (- k)) else natToString (nat k))"
| "toString Undefined = ''undefined''"
| "toString Null = ''null''"

definition getWinnerString :: "jsval \<Rightarrow> string" where
  "getWinnerString player = ''Player '' @ toString player @ '' wins!''"

section \<open>Extracting lines\<close>

definition scanColumns :: "nat \<Rightarrow> int list \<Rightarrow> jsval list" where
  "scanColumns colIndex buttons =
     map (\<lambda>row. at buttons (int (row * GRID_SIZE + colIndex))) [0..<GRID_SIZE]"

text \<open>
  The loop of \<open>topLeftToBottomRightScan\<close>, with the loop variable \<open>i\<close> and the array
  \<open>diagonal\<close> built so far.
\<close>

function topLeftToBottomRightLoop :: "int list \<Rightarrow> nat \<Rightarrow> jsval list \<Rightarrow> jsval list" where
  "topLeftToBottomRightLoop buttons i diagonal =
     (if i < length buttons
      then topLeftToBottomRightLoop buttons (i + (GRID_SIZE + 1)) (diagonal @ [at buttons (int i)])
      else diagonal)"
  by pat_completeness auto
termination
  by (relation "measure (\<lambda>(buttons, i, diagonal). length buttons - i)")
     (auto simp: GRID_SIZE_def)

declare topLeftToBottomRightLoop.simps [simp del]

definition topLeftToBottomRightScan :: "int list \<Rightarrow> jsval list" where
  "topLeftToBottomRightScan buttons = topLeftToBottomRightLoop buttons 0 []"

text \<open>
  The loop of \<open>topRightToBottomLeftScan\<close>. Its bound is \<open>buttons.length - 1\<close>, computed
  on integers so that an empty array gives \<open>-1\<close>.
\<close>

function topRightToBottomLeftLoop :: "int list \<Rightarrow> nat \<Rightarrow> jsval list \<Rightarrow> jsval list" where
  "topRightToBottomLeftLoop buttons i diagonal =
     (if int i < int (length buttons) - 1
      then topRightToBottomLeftLoop buttons (i + (GRID_SIZE - 1)) (diagonal @ [at buttons (int i)])
      else diagonal)"
  by pat_completeness auto
termination
  by (relation "measure (\<lambda>(buttons, i, diagonal). length buttons - i)")
     (auto simp: GRID_SIZE_def)

declare topRightToBottomLeftLoop.simps [simp del]

definition topRightToBottomLeftScan :: "int list \<Rightarrow> jsval list" where
  "topRightToBottomLeftScan buttons = topRightToBottomLeftLoop buttons (GRID_SIZE - 1) []"

section \<open>The win scan\<close>

definition checkWinnerBatch :: "jsval list \<Rightarrow> jsval" where
  "checkWinnerBatch batch =
     (let first = (case batch of [] \<Rightarrow> Undefined | x # _ \<Rightarrow> x)
      in if first \<noteq> Num EMPTY_CELL_VALUE \<and> list_all (\<lambda>cell. cell = first) batch
         then first else Null)"

text \<open>
  The two loops of \<open>displayWinner\<close>. \<open>Some w\<close> is the \<open>return w\<close> inside the loop body,
  \<open>None\<close> is the loop running to its end.
\<close>

function rowsLoop :: "int list \<Rightarrow> nat \<Rightarrow> jsval option" where
  "rowsLoop buttons i =
     (if i < length buttons
      then (let winnerPlayer = checkWinnerBatch (slice buttons i (i + GRID_SIZE))
            in if truthy winnerPlayer then Some winnerPlayer
               else rowsLoop buttons (i + GRID_SIZE))
      else None)"
  by pat_completeness auto
termination
  by (relation "measure (\<lambda>(buttons, i). length buttons - i)")
     (auto simp: GRID_SIZE_def)

declare rowsLoop.simps [simp del]

function columnsLoop :: "int list \<Rightarrow> nat \<Rightarrow> jsval option" where
  "columnsLoop buttons i =
     (if i < GRID_SIZE
      then (let winnerPlayer = checkWinnerBatch (scanColumns i buttons)
            in if truthy winnerPlayer then Some winnerPlayer
               else columnsLoop buttons (i + 1))
      else None)"
  by pat_completeness auto
termination
  by (relation "measure (\<lambda>(buttons, i). GRID_SIZE - i)") auto

declare columnsLoop.simps [simp del]

definition displayWinner :: "int list \<Rightarrow> jsval" where
  "displayWinner buttons =
     (case rowsLoop buttons 0 of
        Some winnerPlayer \<Rightarrow> winnerPlayer
      | None \<Rightarrow>
         (case columnsLoop buttons 0 of
            Some winnerPlayer \<Rightarrow> winnerPlayer
          | None \<Rightarrow>
             (let winnerDiag1 = checkWinnerBatch (topLeftToBottomRightScan buttons)
              in if truthy winnerDiag1 then winnerDiag1
                 else (let winnerDiag2 = checkWinnerBatch (topRightToBottomLeftScan buttons)
                       in if truthy winnerDiag2 then winnerDiag2 else Null))))"

section \<open>Game state and commands\<close>

text \<open>The three state cells of the component \<open>App\<close>.\<close>

record game =
  turn :: int
  winner :: string
  allButtons :: "int list"

text \<open>The calls made to the sound manager and to the fireworks canvas, in order.\<close>

datatype effect = LaunchFireworks | PlayWin | PlayClick | PlayRestart

text \<open>The state that \<open>App\<close> starts with: the initial values given to \<open>useState\<close>.\<close>

definition App :: game where
  "App = \<lparr>turn = FIRST_PLAYER, winner = DEFAULT_WINNER_TEXT,
          allButtons = replicate PLAYGROUND_SIZE EMPTY_CELL_VALUE\<rparr>"

text \<open>
  \<open>placeMarker\<close> returns the state after the handler has run and the effects it has
  triggered. The assignment \<open>newButtons[id] = turn\<close> is reached only when the read
  \<open>allButtons[id]\<close> gave the empty value, so the index
  (\<open>id\<close> in the source, \<open>ident\<close> here) is then a valid one.
\<close>

definition placeMarker :: "int \<Rightarrow> game \<Rightarrow> game \<times> effect list" where
  "placeMarker ident s =
     (if at (allButtons s) ident \<noteq> Num EMPTY_CELL_VALUE \<or> winner s \<noteq> DEFAULT_WINNER_TEXT
      then (s, [])
      else (let newButtons = (allButtons s)[nat ident := turn s];
                winnerPlayer = displayWinner newButtons
            in if truthy winnerPlayer
               then (\<lparr>turn = incrementTurn (turn s),
                      winner = getWinnerString winnerPlayer,
                      allButtons = newButtons\<rparr>, [LaunchFireworks, PlayWin])
               else (\<lparr>turn = incrementTurn (turn s),
                      winner = winner s,
                      allButtons = newButtons\<rparr>, [PlayClick])))"

definition restartGame :: "game \<Rightarrow> game \<times> effect list" where
  "restartGame s =
     (\<lparr>turn = FIRST_PLAYER, winner = DEFAULT_WINNER_TEXT,
       allButtons = replicate PLAYGROUND_SIZE EMPTY_CELL_VALUE\<rparr>, [PlayRestart])"

text \<open>The two buttons of the user interface, and a session as a list of clicks.\<close>

datatype command = PlaceMarker int | RestartGame

fun step :: "game \<Rightarrow> command \<Rightarrow> game" where
  "step s (PlaceMarker ident) = fst (placeMarker ident s)"
| "step s RestartGame = fst (restartGame s)"

definition run :: "game \<Rightarrow> command list \<Rightarrow> game" where
  "run s cmds = foldl step s cmds"

section \<open>Vocabulary of the specification\<close>

text \<open>
  A grid is well formed when it has \<open>N\<^sup>2\<close> cells and each cell holds the empty value
  or a player identifier.
\<close>

definition wellFormed :: "int list \<Rightarrow> bool" where
  "wellFormed buttons =
     (length buttons = PLAYGROUND_SIZE \<and>
      list_all (\<lambda>c. c = EMPTY_CELL_VALUE \<or> c = FIRST_PLAYER \<or> c = SECOND_PLAYER \<or>
                    c = THIRD_PLAYER \<or> c = FOURTH_PLAYER) buttons)"

text \<open>The cells of a grid at the indices of a line, as the values the scan compares.\<close>

definition cells :: "int list \<Rightarrow> nat list \<Rightarrow> jsval list" where
  "cells buttons line = map (\<lambda>i. Num (buttons ! i)) line"

text \<open>
  The result of the first line check that is truthy, in list order, or \<open>null\<close>: the
  shape of the sequence of early returns in \<open>displayWinner\<close>.
\<close>

definition firstTruthy :: "jsval list \<Rightarrow> jsval" where
  "firstTruthy results = (case find truthy results of Some w \<Rightarrow> w | None \<Rightarrow> Null)"

text \<open>
  The lines as the specification describes them, by index: cell \<open>i\<close> lies in row
  \<open>i div N\<close> and column \<open>i mod N\<close>; the main diagonal is \<open>0, N+1, 2(N+1), \<dots>\<close>; the
  anti-diagonal is \<open>N-1, 2N-2, 3N-3, \<dots>\<close>; the order is rows ascending, columns
  ascending, main diagonal, anti-diagonal.
\<close>

definition specRows :: "nat list list" where
  "specRows = map (\<lambda>r. map (\<lambda>c. r * GRID_SIZE + c) [0..<GRID_SIZE]) [0..<GRID_SIZE]"

definition specColumns :: "nat list list" where
  "specColumns = map (\<lambda>c. map (\<lambda>r. r * GRID_SIZE + c) [0..<GRID_SIZE]) [0..<GRID_SIZE]"

definition specMainDiagonal :: "nat list" where
  "specMainDiagonal = map (\<lambda>k. k * (GRID_SIZE + 1)) [0..<GRID_SIZE]"

definition specAntiDiagonal :: "nat list" where
  "specAntiDiagonal = map (\<lambda>k. (k + 1) * (GRID_SIZE - 1)) [0..<GRID_SIZE]"

definition specLines :: "nat list list" where
  "specLines = specRows @ specColumns @ [specMainDiagonal, specAntiDiagonal]"

text \<open>
  A line is won when all its cells hold the same value and that value is not the empty
  one. The scan of the specification returns the value of the first won line.
\<close>

definition specWon :: "int list \<Rightarrow> nat list \<Rightarrow> bool" where
  "specWon buttons line =
     (line \<noteq> [] \<and> buttons ! hd line \<noteq> EMPTY_CELL_VALUE \<and>
      list_all (\<lambda>i. buttons ! i = buttons ! hd line) line)"

definition specScan :: "int list \<Rightarrow> int option" where
  "specScan buttons =
     (case find (specWon buttons) specLines of
        None \<Rightarrow> None
      | Some line \<Rightarrow> Some (buttons ! hd line))"

text \<open>
  A call of \<open>placeMarker\<close> is accepted when it passes the guard on the first line of
  the handler: the cell read gives the empty value and no winner text is set.
\<close>

definition accepted :: "int \<Rightarrow> game \<Rightarrow> bool" where
  "accepted ident s =
     (at (allButtons s) ident = Num EMPTY_CELL_VALUE \<and> winner s = DEFAULT_WINNER_TEXT)"

text \<open>The state invariant: a well-formed grid and a turn that is one of the four players.\<close>

definition invariant :: "game \<Rightarrow> bool" where
  "invariant s =
     (wellFormed (allButtons s) \<and>
      (turn s = FIRST_PLAYER \<or> turn s = SECOND_PLAYER \<or> turn s = THIRD_PLAYER \<or>
       turn s = FOURTH_PLAYER))"

section \<open>The lines that the scan reads\<close>

lemma firstTruthy_simps [simp]:
  "firstTruthy [] = Null"
  "firstTruthy (w # ws) = (if truthy w then w else firstTruthy ws)"
  by (simp_all add: firstTruthy_def)

lemma at_nat: "i < length g \<Longrightarrow> at g (int i) = Num (g ! i)"
  by (simp add: at_def)

lemma topLeft_25:
  "length g = 25 \<Longrightarrow> topLeftToBottomRightScan g = cells g [0, 6, 12, 18, 24]"
  by (simp add: topLeftToBottomRightScan_def topLeftToBottomRightLoop.simps GRID_SIZE_def
      at_def cells_def)

lemma topRight_25:
  "length g = 25 \<Longrightarrow> topRightToBottomLeftScan g = cells g [4, 8, 12, 16, 20]"
  by (simp add: topRightToBottomLeftScan_def topRightToBottomLeftLoop.simps GRID_SIZE_def
      at_def cells_def)

lemma scanColumns_25:
  assumes "length g = 25" and "c < 5"
  shows "scanColumns c g = cells g (map (\<lambda>r. r * 5 + c) [0..<5])"
proof -
  have "at g (int (k * 5 + c)) = Num (g ! (k * 5 + c))" if "k < 5" for k
    using assms that by (intro at_nat) simp
  then show ?thesis
    by (simp add: scanColumns_def GRID_SIZE_def cells_def del: of_nat_add of_nat_mult)
qed

lemma slice_25:
  assumes "length g = 25" and "r < 5"
  shows "slice g (5 * r) (5 * r + 5) = cells g (map (\<lambda>c. r * 5 + c) [0..<5])"
proof -
  have "take 5 (drop (5 * r) g) = map (\<lambda>c. g ! (r * 5 + c)) [0..<5]"
    using assms by (intro nth_equalityI) (auto simp: mult.commute)
  then show ?thesis
    by (simp add: slice_def cells_def comp_def)
qed

lemma columnsLoop_find:
  "columnsLoop g i =
     find truthy (map (\<lambda>c. checkWinnerBatch (scanColumns c g)) [i..<GRID_SIZE])"
proof (induction g i rule: columnsLoop.induct)
  case (1 buttons i)
  show ?case
  proof (cases "i < GRID_SIZE")
    case True
    then show ?thesis
      using 1 by (subst columnsLoop.simps) (simp add: upt_conv_Cons Let_def)
  next
    case False
    then show ?thesis
      by (subst columnsLoop.simps) simp
  qed
qed

lemma rowsLoop_find:
  assumes "length g = 25"
  shows "r \<le> 5 \<Longrightarrow> rowsLoop g (5 * r) =
     find truthy (map (\<lambda>r. checkWinnerBatch (slice g (5 * r) (5 * r + 5))) [r..<5])"
proof (induction "5 - r" arbitrary: r)
  case 0
  then have "r = 5" by simp
  then show ?case using assms by (subst rowsLoop.simps) simp
next
  case (Suc n)
  from Suc.hyps(2) have lt: "r < 5" by simp
  have ih: "rowsLoop g (5 * Suc r) =
     find truthy (map (\<lambda>r. checkWinnerBatch (slice g (5 * r) (5 * r + 5))) [Suc r..<5])"
  proof (rule Suc.hyps(1))
    show "n = 5 - Suc r" using Suc.hyps(2) by simp
    show "Suc r \<le> 5" using lt by simp
  qed
  from ih have ih': "rowsLoop g (5 * r + 5) =
     find truthy (map (\<lambda>r. checkWinnerBatch (slice g (5 * r) (5 * r + 5))) [Suc r..<5])"
    by (simp add: add.commute)
  from lt assms have "5 * r < length g" by simp
  then show ?case
    using ih' lt by (subst rowsLoop.simps) (simp add: upt_conv_Cons Let_def GRID_SIZE_def)
qed

lemma specLines_explicit:
  "specLines =
     [[0, 1, 2, 3, 4], [5, 6, 7, 8, 9], [10, 11, 12, 13, 14], [15, 16, 17, 18, 19],
      [20, 21, 22, 23, 24],
      [0, 5, 10, 15, 20], [1, 6, 11, 16, 21], [2, 7, 12, 17, 22], [3, 8, 13, 18, 23],
      [4, 9, 14, 19, 24],
      [0, 6, 12, 18, 24], [4, 8, 12, 16, 20]]"
  by (simp add: specLines_def specRows_def specColumns_def specMainDiagonal_def
      specAntiDiagonal_def GRID_SIZE_def upt_rec)

lemma firstTruthy_append:
  "firstTruthy (xs @ ys) = (case find truthy xs of Some w \<Rightarrow> w | None \<Rightarrow> firstTruthy ys)"
  by (induction xs) simp_all

lemma rows_batches:
  assumes "length g = 25"
  shows "map (\<lambda>r. checkWinnerBatch (slice g (5 * r) (5 * r + 5))) [0..<5] =
         map (\<lambda>l. checkWinnerBatch (cells g l)) specRows"
proof -
  have "slice g (5 * r) (5 * r + 5) = cells g (map (\<lambda>c. r * GRID_SIZE + c) [0..<GRID_SIZE])"
    if "r < 5" for r
    using slice_25 [OF assms that] by (simp add: GRID_SIZE_def)
  then show ?thesis
    by (simp add: specRows_def GRID_SIZE_def comp_def)
qed

lemma columns_batches:
  assumes "length g = 25"
  shows "map (\<lambda>c. checkWinnerBatch (scanColumns c g)) [0..<GRID_SIZE] =
         map (\<lambda>l. checkWinnerBatch (cells g l)) specColumns"
proof -
  have "scanColumns c g = cells g (map (\<lambda>r. r * GRID_SIZE + c) [0..<GRID_SIZE])"
    if "c < 5" for c
    using scanColumns_25 [OF assms that] by (simp add: GRID_SIZE_def)
  then show ?thesis
    by (simp add: specColumns_def GRID_SIZE_def comp_def)
qed

lemma displayWinner_lines:
  assumes "length g = 25"
  shows "displayWinner g = firstTruthy (map (\<lambda>l. checkWinnerBatch (cells g l)) specLines)"
proof -
  have rows: "rowsLoop g 0 = find truthy (map (\<lambda>l. checkWinnerBatch (cells g l)) specRows)"
    using rowsLoop_find [OF assms, of 0] rows_batches [OF assms] by simp
  have cols: "columnsLoop g 0 = find truthy (map (\<lambda>l. checkWinnerBatch (cells g l)) specColumns)"
    using columnsLoop_find [of g 0] columns_batches [OF assms] by simp
  have d1: "topLeftToBottomRightScan g = cells g specMainDiagonal"
    using topLeft_25 [OF assms] by (simp add: specMainDiagonal_def GRID_SIZE_def upt_rec)
  have d2: "topRightToBottomLeftScan g = cells g specAntiDiagonal"
    using topRight_25 [OF assms] by (simp add: specAntiDiagonal_def GRID_SIZE_def upt_rec)
  show ?thesis
    unfolding displayWinner_def rows cols d1 d2 specLines_def
    by (simp add: firstTruthy_append Let_def split: option.splits)
qed

section \<open>What a line check and the scan return\<close>

lemma checkWinnerBatch_Num:
  "batch \<noteq> [] \<Longrightarrow>
     checkWinnerBatch batch = Num p \<longleftrightarrow> p \<noteq> EMPTY_CELL_VALUE \<and> (\<forall>c\<in>set batch. c = Num p)"
  by (cases batch) (auto simp: checkWinnerBatch_def Let_def list_all_iff)

lemma checkWinnerBatch_cells:
  "l \<noteq> [] \<Longrightarrow>
     checkWinnerBatch (cells g l) = (if specWon g l then Num (g ! hd l) else Null)"
  by (cases l) (auto simp: checkWinnerBatch_def cells_def specWon_def Let_def list_all_iff)

lemma firstTruthy_specWon:
  "(\<forall>l\<in>set ls. l \<noteq> [] \<and> g ! hd l \<noteq> 0) \<Longrightarrow>
     firstTruthy (map (\<lambda>l. checkWinnerBatch (cells g l)) ls) =
       (case find (specWon g) ls of None \<Rightarrow> Null | Some l \<Rightarrow> Num (g ! hd l))"
  by (induction ls) (simp_all add: checkWinnerBatch_cells)

lemma specLines_bounds:
  "l \<in> set specLines \<Longrightarrow> l \<noteq> [] \<and> length l = 5 \<and> (\<forall>i\<in>set l. i < 25)"
  by (auto simp: specLines_explicit)

lemma wellFormed_length: "wellFormed g \<Longrightarrow> length g = 25"
  by (simp add: wellFormed_def PLAYGROUND_SIZE_def GRID_SIZE_def)

lemma wellFormed_cell:
  "wellFormed g \<Longrightarrow> i < 25 \<Longrightarrow> g ! i \<in> {1, 2, 3, 4, 9}"
  by (auto simp: wellFormed_def PLAYGROUND_SIZE_def GRID_SIZE_def list_all_length
      EMPTY_CELL_VALUE_def FIRST_PLAYER_def SECOND_PLAYER_def THIRD_PLAYER_def FOURTH_PLAYER_def)

lemma displayWinner_specScan:
  assumes "wellFormed g"
  shows "displayWinner g = (case specScan g of None \<Rightarrow> Null | Some p \<Rightarrow> Num p)"
proof -
  have "l \<noteq> [] \<and> g ! hd l \<noteq> 0" if "l \<in> set specLines" for l
  proof -
    from that have ne: "l \<noteq> []" and "\<forall>i\<in>set l. i < 25"
      using specLines_bounds by blast+
    then have "hd l < 25" by (cases l) simp_all
    with wellFormed_cell [OF assms] have "g ! hd l \<in> {1, 2, 3, 4, 9}" by blast
    with ne show ?thesis by auto
  qed
  then have "firstTruthy (map (\<lambda>l. checkWinnerBatch (cells g l)) specLines) =
       (case find (specWon g) specLines of None \<Rightarrow> Null | Some l \<Rightarrow> Num (g ! hd l))"
    by (intro firstTruthy_specWon) blast
  then show ?thesis
    using displayWinner_lines [OF wellFormed_length [OF assms]]
    by (simp add: specScan_def split: option.splits)
qed

section \<open>One command, and the invariant\<close>

lemma incrementTurn_cases:
  "incrementTurn t = FIRST_PLAYER \<or> incrementTurn t = SECOND_PLAYER \<or>
   incrementTurn t = THIRD_PLAYER \<or> incrementTurn t = FOURTH_PLAYER"
  by (simp add: incrementTurn_def)

lemma placeMarker_not_accepted:
  "\<not> accepted ident s \<Longrightarrow> placeMarker ident s = (s, [])"
  by (auto simp: placeMarker_def accepted_def)

lemma placeMarker_accepted:
  assumes "accepted ident s"
  shows "allButtons (fst (placeMarker ident s)) = (allButtons s)[nat ident := turn s]"
    and "turn (fst (placeMarker ident s)) = incrementTurn (turn s)"
    and "winner (fst (placeMarker ident s)) =
           (if truthy (displayWinner ((allButtons s)[nat ident := turn s]))
            then getWinnerString (displayWinner ((allButtons s)[nat ident := turn s]))
            else DEFAULT_WINNER_TEXT)"
  using assms by (simp_all add: placeMarker_def accepted_def Let_def)

lemma accepted_index:
  "accepted ident s \<Longrightarrow> 0 \<le> ident \<and> nat ident < length (allButtons s)"
  by (auto simp: accepted_def at_def split: if_splits)

lemma getWinnerString_not_default: "getWinnerString w \<noteq> DEFAULT_WINNER_TEXT"
  by (simp add: getWinnerString_def DEFAULT_WINNER_TEXT_def)

lemma wellFormed_update:
  assumes "wellFormed g"
    and "t = FIRST_PLAYER \<or> t = SECOND_PLAYER \<or> t = THIRD_PLAYER \<or> t = FOURTH_PLAYER"
  shows "wellFormed (g[n := t])"
proof -
  have "set (g[n := t]) \<subseteq> insert t (set g)"
    by (rule set_update_subset_insert)
  with assms show ?thesis
    unfolding wellFormed_def list_all_iff by auto
qed

lemma wellFormed_empty: "wellFormed (replicate PLAYGROUND_SIZE EMPTY_CELL_VALUE)"
  by (simp add: wellFormed_def list_all_iff)

lemma invariant_App: "invariant App"
  by (simp add: invariant_def App_def wellFormed_empty)

lemma invariant_step: "invariant s \<Longrightarrow> invariant (step s c)"
proof (cases c)
  case (PlaceMarker ident)
  assume inv: "invariant s"
  show ?thesis
  proof (cases "accepted ident s")
    case True
    with inv show ?thesis
      unfolding PlaceMarker invariant_def
      by (simp add: placeMarker_accepted wellFormed_update incrementTurn_cases)
  next
    case False
    with inv show ?thesis
      by (simp add: PlaceMarker placeMarker_not_accepted)
  qed
next
  case RestartGame
  then show ?thesis
    by (simp add: restartGame_def invariant_def wellFormed_empty)
qed

lemma invariant_run: "invariant s \<Longrightarrow> invariant (run s cmds)"
  unfolding run_def by (induction cmds arbitrary: s) (simp_all add: invariant_step)

lemma run_simps [simp]:
  "run s [] = s"
  "run s (c # cmds) = run (step s c) cmds"
  by (simp_all add: run_def)

lemma run_rejected:
  "(\<And>i. i \<in> set ids \<Longrightarrow> \<not> accepted i s) \<Longrightarrow> run s (map PlaceMarker ids) = s"
  by (induction ids) (simp_all add: placeMarker_not_accepted)

lemma incrementTurn_values:
  "incrementTurn 1 = 2" "incrementTurn 2 = 3" "incrementTurn 3 = 4" "incrementTurn 4 = 1"
  by (simp_all add: incrementTurn_def FIRST_PLAYER_def SECOND_PLAYER_def THIRD_PLAYER_def
      FOURTH_PLAYER_def)

lemma turn_step_accepted:
  "accepted a s \<Longrightarrow> turn (step s (PlaceMarker a)) = incrementTurn (turn s)"
  by (simp add: placeMarker_accepted)

lemma specWon_player:
  assumes "wellFormed g" and "l \<in> set specLines" and "specWon g l"
  shows "g ! hd l \<in> {1, 2, 3, 4}"
proof -
  from specLines_bounds [OF assms(2)] have ne: "l \<noteq> []" and b: "\<forall>i\<in>set l. i < 25"
    by simp_all
  from ne have "hd l \<in> set l" by simp
  with b have "hd l < 25" by blast
  from wellFormed_cell [OF assms(1) this] have "g ! hd l \<in> {1, 2, 3, 4, 9}" .
  moreover from assms(3) have "g ! hd l \<noteq> 9"
    by (simp add: specWon_def EMPTY_CELL_VALUE_def)
  ultimately show ?thesis by simp
qed

lemma checkWinnerBatch_differ:
  assumes "i < length batch" and "j < length batch" and "batch ! i \<noteq> batch ! j"
  shows "checkWinnerBatch batch = Null"
proof -
  have "\<not> list_all (\<lambda>cell. cell = x) batch" for x
  proof
    assume "list_all (\<lambda>cell. cell = x) batch"
    with assms(1,2) have "batch ! i = x" and "batch ! j = x"
      by (simp_all add: list_all_length)
    with assms(3) show False by simp
  qed
  then show ?thesis
    by (simp add: checkWinnerBatch_def Let_def)
qed

lemma displayWinner_player:
  assumes "wellFormed g"
  shows "displayWinner g = Null \<or> displayWinner g \<in> Num ` {1, 2, 3, 4}"
proof (cases "specScan g")
  case None
  then show ?thesis
    by (simp add: displayWinner_specScan [OF assms])
next
  case (Some p)
  then obtain l where f: "find (specWon g) specLines = Some l" and p: "p = g ! hd l"
    by (auto simp: specScan_def split: option.splits)
  from f obtain k where "k < length specLines" and "specWon g (specLines ! k)"
    and "l = specLines ! k"
    unfolding find_Some_iff by blast
  then have "l \<in> set specLines" and "specWon g l"
    by simp_all
  from specWon_player [OF assms this] p have "p \<in> {1, 2, 3, 4}"
    by simp
  with Some show ?thesis
    by (simp add: displayWinner_specScan [OF assms])
qed

lemma getWinnerString_players:
  "getWinnerString (Num 1) = ''Player 1 wins!''"
  "getWinnerString (Num 2) = ''Player 2 wins!''"
  "getWinnerString (Num 3) = ''Player 3 wins!''"
  "getWinnerString (Num 4) = ''Player 4 wins!''"
  by code_simp+

section \<open>The claims\<close>

text \<open>
  Claim C7. A freshly constructed game has no winner text (status in progress), turn
  equal to player 1 and each of the 25 cells empty; \<open>restartGame\<close>, from any state and
  without any precondition, gives exactly this initial state, and triggers the restart
  sound.
\<close>

theorem fresh_game_and_restart:
  "turn App = FIRST_PLAYER \<and> FIRST_PLAYER = 1 \<and>
   winner App = DEFAULT_WINNER_TEXT \<and>
   length (allButtons App) = 25 \<and> set (allButtons App) = {EMPTY_CELL_VALUE} \<and>
   allButtons App = replicate (GRID_SIZE * GRID_SIZE) EMPTY_CELL_VALUE \<and>
   restartGame s = (App, [PlayRestart]) \<and>
   step s RestartGame = App"
  by (simp add: App_def restartGame_def PLAYGROUND_SIZE_def GRID_SIZE_def FIRST_PLAYER_def)

text \<open>
  Claim C10. From the initial state, after any sequence of \<open>placeMarker\<close> and restart
  commands, the grid has exactly 25 cells, each cell holds the empty value 9 or a
  player identifier among 1, 2, 3, 4, and the turn is among 1, 2, 3, 4.
\<close>

theorem reachable_state_invariant:
  "length (allButtons (run App cmds)) = 25 \<and>
   (\<forall>c\<in>set (allButtons (run App cmds)). c = 9 \<or> c \<in> {1, 2, 3, 4}) \<and>
   turn (run App cmds) \<in> {1, 2, 3, 4}"
proof -
  have inv: "invariant (run App cmds)"
    by (rule invariant_run [OF invariant_App])
  then have wf: "wellFormed (allButtons (run App cmds))"
    by (simp add: invariant_def)
  have "length (allButtons (run App cmds)) = 25"
    by (rule wellFormed_length [OF wf])
  moreover have "\<forall>c\<in>set (allButtons (run App cmds)). c = 9 \<or> c \<in> {1, 2, 3, 4}"
    using wf
    by (auto simp: wellFormed_def list_all_iff EMPTY_CELL_VALUE_def FIRST_PLAYER_def
        SECOND_PLAYER_def THIRD_PLAYER_def FOURTH_PLAYER_def)
  moreover have "turn (run App cmds) \<in> {1, 2, 3, 4}"
    using inv
    by (auto simp: invariant_def FIRST_PLAYER_def SECOND_PLAYER_def THIRD_PLAYER_def
        FOURTH_PLAYER_def)
  ultimately show ?thesis by blast
qed

text \<open>The invariant at a session with a rejected click, a restart and an out-of-range index.\<close>

theorem reachable_state_invariant_witness:
  "length (allButtons (run App [PlaceMarker 7, PlaceMarker 7, RestartGame, PlaceMarker 30,
                                PlaceMarker 3, PlaceMarker 24])) = 25 \<and>
   set (allButtons (run App [PlaceMarker 7, PlaceMarker 7, RestartGame, PlaceMarker 30,
                             PlaceMarker 3, PlaceMarker 24])) = {1, 2, 9} \<and>
   turn (run App [PlaceMarker 7, PlaceMarker 7, RestartGame, PlaceMarker 30,
                  PlaceMarker 3, PlaceMarker 24]) \<in> {1, 2, 3, 4} \<and>
   run App [PlaceMarker 7, PlaceMarker 7, RestartGame, PlaceMarker 30,
            PlaceMarker 3, PlaceMarker 24] =
     \<lparr>turn = 3, winner = DEFAULT_WINNER_TEXT,
       allButtons = [9, 9, 9, 1, 9, 9, 9, 9, 9, 9, 9, 9, 9, 9, 9, 9, 9, 9, 9, 9, 9, 9, 9, 9, 2]\<rparr>"
proof -
  have "run App [PlaceMarker 7, PlaceMarker 7, RestartGame, PlaceMarker 30,
            PlaceMarker 3, PlaceMarker 24] =
     \<lparr>turn = 3, winner = DEFAULT_WINNER_TEXT,
       allButtons = [9, 9, 9, 1, 9, 9, 9, 9, 9, 9, 9, 9, 9, 9, 9, 9, 9, 9, 9, 9, 9, 9, 9, 9, 2]\<rparr>"
    by code_simp
  with reachable_state_invariant [of "[PlaceMarker 7, PlaceMarker 7, RestartGame, PlaceMarker 30,
            PlaceMarker 3, PlaceMarker 24]"]
  show ?thesis by auto
qed

text \<open>
  Claim C9. For an integer index outside the grid (negative, or 25 and above),
  \<open>placeMarker\<close> does nothing: the read outside the array gives \<open>undefined\<close>, which
  differs from the empty value, so the guard returns at once; the state is unchanged
  and no effect is triggered. The model has no error branch here because the handler
  has no statement that can throw: the only operation on the index is the array read.
\<close>

theorem placeMarker_out_of_range:
  assumes "length (allButtons s) = PLAYGROUND_SIZE"
    and "ident < 0 \<or> 25 \<le> ident"
  shows "at (allButtons s) ident = Undefined \<and>
         at (allButtons s) ident \<noteq> Num EMPTY_CELL_VALUE \<and>
         placeMarker ident s = (s, [])"
proof -
  from assms have "at (allButtons s) ident = Undefined"
    by (auto simp: at_def PLAYGROUND_SIZE_def GRID_SIZE_def)
  then show ?thesis
    by (simp add: placeMarker_def)
qed

text \<open>The two nearest indices outside the grid, on the initial state.\<close>

theorem placeMarker_out_of_range_witness:
  "length (allButtons App) = PLAYGROUND_SIZE \<and> ((-1::int) < 0 \<or> 25 \<le> (-1::int)) \<and>
   ((25::int) < 0 \<or> 25 \<le> (25::int)) \<and>
   at (allButtons App) (-1) = Undefined \<and> placeMarker (-1) App = (App, []) \<and>
   at (allButtons App) 25 = Undefined \<and> placeMarker 25 App = (App, [])"
proof -
  have len: "length (allButtons App) = PLAYGROUND_SIZE"
    by (simp add: App_def)
  have lo: "(-1::int) < 0 \<or> 25 \<le> (-1::int)" by simp
  have hi: "(25::int) < 0 \<or> 25 \<le> (25::int)" by simp
  show ?thesis
    using len placeMarker_out_of_range [OF len lo] placeMarker_out_of_range [OF len hi]
    by simp
qed

text \<open>
  Claim C2. For every index, a call of \<open>placeMarker\<close> whose cell read does not give the
  empty value, or that is made when a winner text is already set, is a silent no-op: the
  whole state (each cell, the turn, the winner text) is unchanged and no effect is
  triggered. Repeating such calls any number of times, on one index or on several,
  leaves the state as it was. The handler has no statement that can throw, so the model
  has no error result.
\<close>

theorem placeMarker_rejected_noop:
  "(at (allButtons s) ident \<noteq> Num EMPTY_CELL_VALUE \<or> winner s \<noteq> DEFAULT_WINNER_TEXT
      \<longrightarrow> placeMarker ident s = (s, []) \<and> run s (replicate n (PlaceMarker ident)) = s) \<and>
   ((\<forall>i\<in>set ids. at (allButtons s) i \<noteq> Num EMPTY_CELL_VALUE \<or> winner s \<noteq> DEFAULT_WINNER_TEXT)
      \<longrightarrow> run s (map PlaceMarker ids) = s)"
proof (intro conjI impI)
  assume rej: "at (allButtons s) ident \<noteq> Num EMPTY_CELL_VALUE \<or> winner s \<noteq> DEFAULT_WINNER_TEXT"
  then have na: "\<not> accepted ident s"
    by (auto simp: accepted_def)
  then show "placeMarker ident s = (s, [])"
    by (rule placeMarker_not_accepted)
  have "run s (map PlaceMarker (replicate n ident)) = s"
    using na by (intro run_rejected) simp
  then show "run s (replicate n (PlaceMarker ident)) = s"
    by simp
next
  assume "\<forall>i\<in>set ids. at (allButtons s) i \<noteq> Num EMPTY_CELL_VALUE \<or> winner s \<noteq> DEFAULT_WINNER_TEXT"
  then have "\<not> accepted i s" if "i \<in> set ids" for i
    using that by (auto simp: accepted_def)
  then show "run s (map PlaceMarker ids) = s"
    by (rule run_rejected)
qed

text \<open>
  Three clicks on an occupied cell while the game is in progress, and four clicks (on an
  occupied cell, on empty cells and outside the grid) after player 1 has won.
\<close>

theorem placeMarker_rejected_noop_witness:
  "at [1, 9, 9, 9, 9, 9, 9, 9, 9, 9, 9, 9, 9, 9, 9, 9, 9, 9, 9, 9, 9, 9, 9, 9, 9] 0 = Num 1 \<and>
   placeMarker 0 \<lparr>turn = 2, winner = DEFAULT_WINNER_TEXT,
       allButtons = [1, 9, 9, 9, 9, 9, 9, 9, 9, 9, 9, 9, 9, 9, 9, 9, 9, 9, 9, 9, 9, 9, 9, 9, 9]\<rparr> =
     (\<lparr>turn = 2, winner = DEFAULT_WINNER_TEXT,
       allButtons = [1, 9, 9, 9, 9, 9, 9, 9, 9, 9, 9, 9, 9, 9, 9, 9, 9, 9, 9, 9, 9, 9, 9, 9, 9]\<rparr>, []) \<and>
   run \<lparr>turn = 2, winner = DEFAULT_WINNER_TEXT,
       allButtons = [1, 9, 9, 9, 9, 9, 9, 9, 9, 9, 9, 9, 9, 9, 9, 9, 9, 9, 9, 9, 9, 9, 9, 9, 9]\<rparr>
     (replicate 3 (PlaceMarker 0)) =
     \<lparr>turn = 2, winner = DEFAULT_WINNER_TEXT,
       allButtons = [1, 9, 9, 9, 9, 9, 9, 9, 9, 9, 9, 9, 9, 9, 9, 9, 9, 9, 9, 9, 9, 9, 9, 9, 9]\<rparr> \<and>
   run \<lparr>turn = 2, winner = ''Player 1 wins!'',
       allButtons = [1, 1, 1, 1, 1, 2, 2, 2, 2, 9, 3, 3, 3, 3, 9, 4, 4, 4, 4, 9, 9, 9, 9, 9, 9]\<rparr>
     (map PlaceMarker [0, 9, 24, 30]) =
     \<lparr>turn = 2, winner = ''Player 1 wins!'',
       allButtons = [1, 1, 1, 1, 1, 2, 2, 2, 2, 9, 3, 3, 3, 3, 9, 4, 4, 4, 4, 9, 9, 9, 9, 9, 9]\<rparr>"
proof -
  let ?s = "\<lparr>turn = 2, winner = DEFAULT_WINNER_TEXT,
       allButtons = [1, 9, 9, 9, 9, 9, 9, 9, 9, 9, 9, 9, 9, 9, 9, 9, 9, 9, 9, 9, 9, 9, 9, 9, 9]\<rparr>"
  let ?w = "\<lparr>turn = 2, winner = ''Player 1 wins!'',
       allButtons = [1, 1, 1, 1, 1, 2, 2, 2, 2, 9, 3, 3, 3, 3, 9, 4, 4, 4, 4, 9, 9, 9, 9, 9, 9]\<rparr>"
  have occ: "at [1, 9, 9, 9, 9, 9, 9, 9, 9, 9, 9, 9, 9, 9, 9, 9, 9, 9, 9, 9, 9, 9, 9, 9, 9] 0 = Num 1"
    by (simp add: at_def)
  then have h1: "at (allButtons ?s) 0 \<noteq> Num EMPTY_CELL_VALUE \<or> winner ?s \<noteq> DEFAULT_WINNER_TEXT"
    by (simp add: EMPTY_CELL_VALUE_def)
  have h2: "\<forall>i\<in>set [0, 9, 24, 30].
      at (allButtons ?w) i \<noteq> Num EMPTY_CELL_VALUE \<or> winner ?w \<noteq> DEFAULT_WINNER_TEXT"
    by (simp add: DEFAULT_WINNER_TEXT_def)
  from placeMarker_rejected_noop [of ?s 0 3 "[]"] h1
  have a: "placeMarker 0 ?s = (?s, []) \<and> run ?s (replicate 3 (PlaceMarker 0)) = ?s"
    by blast
  from placeMarker_rejected_noop [of ?w 0 0 "[0, 9, 24, 30]"] h2
  have b: "run ?w (map PlaceMarker [0, 9, 24, 30]) = ?w"
    by blast
  from occ a b show ?thesis by blast
qed

text \<open>
  Claim C8. When \<open>placeMarker\<close> is accepted, the index is inside the grid and the
  committed grid is the previous one with the cell at the index set to the turn value
  of the moment of the call: the length is kept, the cell at the index holds the turn,
  and every other cell is as before. The statement does not depend on the result of
  the win scan, so it holds both when a winner is found and when none is.
\<close>

theorem placeMarker_accepted_grid:
  assumes "at (allButtons s) ident = Num EMPTY_CELL_VALUE"
    and "winner s = DEFAULT_WINNER_TEXT"
  shows "0 \<le> ident \<and> nat ident < length (allButtons s) \<and>
         allButtons (fst (placeMarker ident s)) = (allButtons s)[nat ident := turn s] \<and>
         length (allButtons (fst (placeMarker ident s))) = length (allButtons s) \<and>
         allButtons (fst (placeMarker ident s)) ! nat ident = turn s \<and>
         (\<forall>j. j \<noteq> nat ident \<longrightarrow>
              allButtons (fst (placeMarker ident s)) ! j = allButtons s ! j)"
proof -
  from assms have acc: "accepted ident s"
    by (simp add: accepted_def)
  note idx = accepted_index [OF acc]
  have new: "allButtons (fst (placeMarker ident s)) = (allButtons s)[nat ident := turn s]"
    by (rule placeMarker_accepted(1) [OF acc])
  from idx show ?thesis
    unfolding new by simp
qed

text \<open>The same position with a move that wins (cell 4) and a move that does not (cell 9).\<close>

theorem placeMarker_accepted_grid_witness:
  "at [1, 1, 1, 1, 9, 2, 2, 2, 2, 9, 3, 3, 3, 3, 9, 4, 4, 4, 4, 9, 9, 9, 9, 9, 9] 4 = Num 9 \<and>
   truthy (displayWinner [1, 1, 1, 1, 1, 2, 2, 2, 2, 9, 3, 3, 3, 3, 9, 4, 4, 4, 4, 9, 9, 9, 9, 9, 9]) \<and>
   allButtons (fst (placeMarker 4 \<lparr>turn = 1, winner = DEFAULT_WINNER_TEXT,
       allButtons = [1, 1, 1, 1, 9, 2, 2, 2, 2, 9, 3, 3, 3, 3, 9, 4, 4, 4, 4, 9, 9, 9, 9, 9, 9]\<rparr>)) =
     [1, 1, 1, 1, 1, 2, 2, 2, 2, 9, 3, 3, 3, 3, 9, 4, 4, 4, 4, 9, 9, 9, 9, 9, 9] \<and>
   at [1, 1, 1, 1, 9, 2, 2, 2, 2, 9, 3, 3, 3, 3, 9, 4, 4, 4, 4, 9, 9, 9, 9, 9, 9] 9 = Num 9 \<and>
   \<not> truthy (displayWinner [1, 1, 1, 1, 9, 2, 2, 2, 2, 1, 3, 3, 3, 3, 9, 4, 4, 4, 4, 9, 9, 9, 9, 9, 9]) \<and>
   allButtons (fst (placeMarker 9 \<lparr>turn = 1, winner = DEFAULT_WINNER_TEXT,
       allButtons = [1, 1, 1, 1, 9, 2, 2, 2, 2, 9, 3, 3, 3, 3, 9, 4, 4, 4, 4, 9, 9, 9, 9, 9, 9]\<rparr>)) =
     [1, 1, 1, 1, 9, 2, 2, 2, 2, 1, 3, 3, 3, 3, 9, 4, 4, 4, 4, 9, 9, 9, 9, 9, 9]"
proof -
  let ?g = "[1, 1, 1, 1, 9, 2, 2, 2, 2, 9, 3, 3, 3, 3, 9, 4, 4, 4, 4, 9, 9, 9, 9, 9, 9::int]"
  let ?s = "\<lparr>turn = 1, winner = DEFAULT_WINNER_TEXT, allButtons = ?g\<rparr>"
  have e4: "at ?g 4 = Num 9" and e9: "at ?g 9 = Num 9"
    by (simp_all add: at_def)
  have w4: "truthy (displayWinner [1, 1, 1, 1, 1, 2, 2, 2, 2, 9, 3, 3, 3, 3, 9, 4, 4, 4, 4, 9, 9, 9, 9, 9, 9])"
    by code_simp
  have w9: "\<not> truthy (displayWinner [1, 1, 1, 1, 9, 2, 2, 2, 2, 1, 3, 3, 3, 3, 9, 4, 4, 4, 4, 9, 9, 9, 9, 9, 9])"
    by code_simp
  have h4: "at (allButtons ?s) 4 = Num EMPTY_CELL_VALUE" and h9: "at (allButtons ?s) 9 = Num EMPTY_CELL_VALUE"
    using e4 e9 by (simp_all add: EMPTY_CELL_VALUE_def)
  have hw: "winner ?s = DEFAULT_WINNER_TEXT" by simp
  from placeMarker_accepted_grid [OF h4 hw]
  have a: "allButtons (fst (placeMarker 4 ?s)) =
     [1, 1, 1, 1, 1, 2, 2, 2, 2, 9, 3, 3, 3, 3, 9, 4, 4, 4, 4, 9, 9, 9, 9, 9, 9]"
    by simp
  from placeMarker_accepted_grid [OF h9 hw]
  have b: "allButtons (fst (placeMarker 9 ?s)) =
     [1, 1, 1, 1, 9, 2, 2, 2, 2, 1, 3, 3, 3, 3, 9, 4, 4, 4, 4, 9, 9, 9, 9, 9, 9]"
    by simp
  from e4 e9 w4 w9 a b show ?thesis by blast
qed

text \<open>
  Claim C6. The turn successor cycles 1, 2, 3, 4, 1; the turn of every state reached
  from the initial one is a valid player; an accepted placement moves the turn to its
  successor and a rejected one leaves it; after four consecutive accepted placements
  the turn is what it was, so from player 1 it is player 1 again.
\<close>

theorem turn_round_robin:
  "incrementTurn 1 = 2 \<and> incrementTurn 2 = 3 \<and> incrementTurn 3 = 4 \<and> incrementTurn 4 = 1 \<and>
   turn (run App cmds) \<in> {1, 2, 3, 4} \<and>
   (accepted a s \<longrightarrow> turn (step s (PlaceMarker a)) = incrementTurn (turn s)) \<and>
   (\<not> accepted a s \<longrightarrow> turn (step s (PlaceMarker a)) = turn s) \<and>
   (turn s \<in> {1, 2, 3, 4} \<and> accepted a s \<and> accepted b (run s [PlaceMarker a]) \<and>
    accepted c (run s [PlaceMarker a, PlaceMarker b]) \<and>
    accepted d (run s [PlaceMarker a, PlaceMarker b, PlaceMarker c])
    \<longrightarrow> turn (run s [PlaceMarker a, PlaceMarker b, PlaceMarker c, PlaceMarker d]) = turn s)"
proof -
  have cycle: "incrementTurn 1 = 2 \<and> incrementTurn 2 = 3 \<and> incrementTurn 3 = 4 \<and>
      incrementTurn 4 = 1"
    by (simp add: incrementTurn_values)
  have "invariant (run App cmds)"
    by (rule invariant_run [OF invariant_App])
  then have valid: "turn (run App cmds) \<in> {1, 2, 3, 4}"
    by (auto simp: invariant_def FIRST_PLAYER_def SECOND_PLAYER_def THIRD_PLAYER_def
        FOURTH_PLAYER_def)
  have rej: "\<not> accepted a s \<longrightarrow> turn (step s (PlaceMarker a)) = turn s"
    by (simp add: placeMarker_not_accepted)
  have four: "turn (run s [PlaceMarker a, PlaceMarker b, PlaceMarker c, PlaceMarker d]) = turn s"
    if t: "turn s \<in> {1, 2, 3, 4}" and a: "accepted a s" and b: "accepted b (run s [PlaceMarker a])"
      and c: "accepted c (run s [PlaceMarker a, PlaceMarker b])"
      and d: "accepted d (run s [PlaceMarker a, PlaceMarker b, PlaceMarker c])"
  proof -
    let ?s1 = "step s (PlaceMarker a)"
    let ?s2 = "step ?s1 (PlaceMarker b)"
    let ?s3 = "step ?s2 (PlaceMarker c)"
    let ?s4 = "step ?s3 (PlaceMarker d)"
    have t1: "turn ?s1 = incrementTurn (turn s)"
      using a by (rule turn_step_accepted)
    have t2: "turn ?s2 = incrementTurn (turn ?s1)"
      using b by (intro turn_step_accepted) simp
    have t3: "turn ?s3 = incrementTurn (turn ?s2)"
      using c by (intro turn_step_accepted) simp
    have t4: "turn ?s4 = incrementTurn (turn ?s3)"
      using d by (intro turn_step_accepted) simp
    have "turn ?s4 = incrementTurn (incrementTurn (incrementTurn (incrementTurn (turn s))))"
      by (simp only: t1 t2 t3 t4)
    also have "\<dots> = turn s"
      using t by (auto simp: incrementTurn_values)
    finally show ?thesis by simp
  qed
  from cycle valid rej four turn_step_accepted [of a s] show ?thesis
    by blast
qed

text \<open>The first four moves of a game, on cells 0 to 3, and a second click on cell 0.\<close>

theorem turn_round_robin_witness:
  "accepted 0 App \<and> accepted 1 (run App [PlaceMarker 0]) \<and>
   accepted 2 (run App [PlaceMarker 0, PlaceMarker 1]) \<and>
   accepted 3 (run App [PlaceMarker 0, PlaceMarker 1, PlaceMarker 2]) \<and>
   turn App = 1 \<and>
   turn (run App [PlaceMarker 0]) = 2 \<and>
   turn (run App [PlaceMarker 0, PlaceMarker 1, PlaceMarker 2, PlaceMarker 3]) = 1 \<and>
   \<not> accepted 0 (run App [PlaceMarker 0]) \<and>
   turn (step (run App [PlaceMarker 0]) (PlaceMarker 0)) = 2"
proof -
  have a: "accepted 0 App" by code_simp
  have b: "accepted 1 (run App [PlaceMarker 0])" by code_simp
  have c: "accepted 2 (run App [PlaceMarker 0, PlaceMarker 1])" by code_simp
  have d: "accepted 3 (run App [PlaceMarker 0, PlaceMarker 1, PlaceMarker 2])" by code_simp
  have r: "\<not> accepted 0 (run App [PlaceMarker 0])" by code_simp
  have t: "turn App = 1" by (simp add: App_def FIRST_PLAYER_def)
  note inst = turn_round_robin [of "[]" 0 App 1 2 3]
  from inst a t have one: "turn (run App [PlaceMarker 0]) = 2"
    by (simp add: incrementTurn_values)
  from inst a b c d t
  have four: "turn (run App [PlaceMarker 0, PlaceMarker 1, PlaceMarker 2, PlaceMarker 3]) = 1"
    by simp
  from turn_round_robin [of "[]" 0 "run App [PlaceMarker 0]" 0 0 0] r one
  have "turn (step (run App [PlaceMarker 0]) (PlaceMarker 0)) = 2"
    by simp
  with a b c d t one four r show ?thesis by blast
qed

text \<open>
  Claim C1, as stated, fails: the handler calls \<open>incrementTurn\<close> after the branch on
  the winner, so the turn advances on a winning move too. The session below is a legal
  game in which player 1 completes the top row with the move on cell 4: the winner text
  becomes that of player 1 and the turn goes from 1 to 2.
\<close>

theorem turn_kept_on_win_counterexample:
  "run App [PlaceMarker 0, PlaceMarker 5, PlaceMarker 10, PlaceMarker 15,
            PlaceMarker 1, PlaceMarker 6, PlaceMarker 11, PlaceMarker 16,
            PlaceMarker 2, PlaceMarker 7, PlaceMarker 12, PlaceMarker 17,
            PlaceMarker 3, PlaceMarker 8, PlaceMarker 13, PlaceMarker 18] =
     \<lparr>turn = 1, winner = DEFAULT_WINNER_TEXT,
       allButtons = [1, 1, 1, 1, 9, 2, 2, 2, 2, 9, 3, 3, 3, 3, 9, 4, 4, 4, 4, 9, 9, 9, 9, 9, 9]\<rparr> \<and>
   displayWinner [1, 1, 1, 1, 1, 2, 2, 2, 2, 9, 3, 3, 3, 3, 9, 4, 4, 4, 4, 9, 9, 9, 9, 9, 9] = Num 1 \<and>
   placeMarker 4 \<lparr>turn = 1, winner = DEFAULT_WINNER_TEXT,
       allButtons = [1, 1, 1, 1, 9, 2, 2, 2, 2, 9, 3, 3, 3, 3, 9, 4, 4, 4, 4, 9, 9, 9, 9, 9, 9]\<rparr> =
     (\<lparr>turn = 2, winner = ''Player 1 wins!'',
       allButtons = [1, 1, 1, 1, 1, 2, 2, 2, 2, 9, 3, 3, 3, 3, 9, 4, 4, 4, 4, 9, 9, 9, 9, 9, 9]\<rparr>,
      [LaunchFireworks, PlayWin]) \<and>
   turn (fst (placeMarker 4 \<lparr>turn = 1, winner = DEFAULT_WINNER_TEXT,
       allButtons = [1, 1, 1, 1, 9, 2, 2, 2, 2, 9, 3, 3, 3, 3, 9, 4, 4, 4, 4, 9, 9, 9, 9, 9, 9]\<rparr>)) \<noteq>
     turn \<lparr>turn = 1, winner = DEFAULT_WINNER_TEXT,
       allButtons = [1, 1, 1, 1, 9, 2, 2, 2, 2, 9, 3, 3, 3, 3, 9, 4, 4, 4, 4, 9, 9, 9, 9, 9, 9]\<rparr>"
proof -
  let ?s = "\<lparr>turn = 1, winner = DEFAULT_WINNER_TEXT,
       allButtons = [1, 1, 1, 1, 9, 2, 2, 2, 2, 9, 3, 3, 3, 3, 9, 4, 4, 4, 4, 9, 9, 9, 9, 9, 9]\<rparr>"
  have r: "run App [PlaceMarker 0, PlaceMarker 5, PlaceMarker 10, PlaceMarker 15,
            PlaceMarker 1, PlaceMarker 6, PlaceMarker 11, PlaceMarker 16,
            PlaceMarker 2, PlaceMarker 7, PlaceMarker 12, PlaceMarker 17,
            PlaceMarker 3, PlaceMarker 8, PlaceMarker 13, PlaceMarker 18] = ?s"
    by code_simp
  have w: "displayWinner [1, 1, 1, 1, 1, 2, 2, 2, 2, 9, 3, 3, 3, 3, 9, 4, 4, 4, 4, 9, 9, 9, 9, 9, 9] = Num 1"
    by code_simp
  have p: "placeMarker 4 ?s =
     (\<lparr>turn = 2, winner = ''Player 1 wins!'',
       allButtons = [1, 1, 1, 1, 1, 2, 2, 2, 2, 9, 3, 3, 3, 3, 9, 4, 4, 4, 4, 9, 9, 9, 9, 9, 9]\<rparr>,
      [LaunchFireworks, PlayWin])"
    by code_simp
  have "turn (fst (placeMarker 4 ?s)) \<noteq> turn ?s"
    unfolding p by simp
  with r w p show ?thesis by blast
qed

text \<open>
  Claim C1, amended. When \<open>placeMarker\<close> is accepted and the scan finds a winner on the
  new grid, the winner text is set to that of the winner (so the status is no longer in
  progress), the fireworks and the win sound are triggered, and the turn advances to the
  next player all the same; when the scan finds none, the winner text stays the default
  one, the click sound is triggered and the turn advances. The turn changes only on an
  accepted call: a call that changes it has passed the guard. In a state that satisfies
  the invariant the winner found is one of the players 1 to 4, and the winner texts of
  the four players are the four strings below, each different from the default text.
\<close>

theorem placeMarker_accepted_status_and_turn:
  "(at (allButtons s) ident = Num EMPTY_CELL_VALUE \<and> winner s = DEFAULT_WINNER_TEXT \<longrightarrow>
      turn (fst (placeMarker ident s)) = incrementTurn (turn s) \<and>
      (truthy (displayWinner ((allButtons s)[nat ident := turn s])) \<longrightarrow>
         winner (fst (placeMarker ident s)) =
           getWinnerString (displayWinner ((allButtons s)[nat ident := turn s])) \<and>
         winner (fst (placeMarker ident s)) \<noteq> DEFAULT_WINNER_TEXT \<and>
         snd (placeMarker ident s) = [LaunchFireworks, PlayWin]) \<and>
      (\<not> truthy (displayWinner ((allButtons s)[nat ident := turn s])) \<longrightarrow>
         winner (fst (placeMarker ident s)) = DEFAULT_WINNER_TEXT \<and>
         snd (placeMarker ident s) = [PlayClick])) \<and>
   (turn (fst (placeMarker ident s)) \<noteq> turn s \<longrightarrow>
      at (allButtons s) ident = Num EMPTY_CELL_VALUE \<and> winner s = DEFAULT_WINNER_TEXT) \<and>
   (invariant s \<and> at (allButtons s) ident = Num EMPTY_CELL_VALUE \<and>
    winner s = DEFAULT_WINNER_TEXT \<and>
    truthy (displayWinner ((allButtons s)[nat ident := turn s])) \<longrightarrow>
      displayWinner ((allButtons s)[nat ident := turn s]) \<in> Num ` {1, 2, 3, 4}) \<and>
   getWinnerString (Num 1) = ''Player 1 wins!'' \<and>
   getWinnerString (Num 2) = ''Player 2 wins!'' \<and>
   getWinnerString (Num 3) = ''Player 3 wins!'' \<and>
   getWinnerString (Num 4) = ''Player 4 wins!'' \<and>
   DEFAULT_WINNER_TEXT = ''No one has won yet.''"
proof (intro conjI)
  show "at (allButtons s) ident = Num EMPTY_CELL_VALUE \<and> winner s = DEFAULT_WINNER_TEXT \<longrightarrow>
      turn (fst (placeMarker ident s)) = incrementTurn (turn s) \<and>
      (truthy (displayWinner ((allButtons s)[nat ident := turn s])) \<longrightarrow>
         winner (fst (placeMarker ident s)) =
           getWinnerString (displayWinner ((allButtons s)[nat ident := turn s])) \<and>
         winner (fst (placeMarker ident s)) \<noteq> DEFAULT_WINNER_TEXT \<and>
         snd (placeMarker ident s) = [LaunchFireworks, PlayWin]) \<and>
      (\<not> truthy (displayWinner ((allButtons s)[nat ident := turn s])) \<longrightarrow>
         winner (fst (placeMarker ident s)) = DEFAULT_WINNER_TEXT \<and>
         snd (placeMarker ident s) = [PlayClick])"
    by (simp add: placeMarker_def Let_def getWinnerString_not_default)
  show "turn (fst (placeMarker ident s)) \<noteq> turn s \<longrightarrow>
      at (allButtons s) ident = Num EMPTY_CELL_VALUE \<and> winner s = DEFAULT_WINNER_TEXT"
  proof
    assume changed: "turn (fst (placeMarker ident s)) \<noteq> turn s"
    have "accepted ident s"
    proof (rule ccontr)
      assume "\<not> accepted ident s"
      then have "placeMarker ident s = (s, [])"
        by (rule placeMarker_not_accepted)
      with changed show False by simp
    qed
    then show "at (allButtons s) ident = Num EMPTY_CELL_VALUE \<and> winner s = DEFAULT_WINNER_TEXT"
      by (simp add: accepted_def)
  qed
  show "invariant s \<and> at (allButtons s) ident = Num EMPTY_CELL_VALUE \<and>
    winner s = DEFAULT_WINNER_TEXT \<and>
    truthy (displayWinner ((allButtons s)[nat ident := turn s])) \<longrightarrow>
      displayWinner ((allButtons s)[nat ident := turn s]) \<in> Num ` {1, 2, 3, 4}"
  proof
    assume h: "invariant s \<and> at (allButtons s) ident = Num EMPTY_CELL_VALUE \<and>
      winner s = DEFAULT_WINNER_TEXT \<and>
      truthy (displayWinner ((allButtons s)[nat ident := turn s]))"
    then have "wellFormed ((allButtons s)[nat ident := turn s])"
      by (intro wellFormed_update) (simp_all add: invariant_def)
    from displayWinner_player [OF this] h
    show "displayWinner ((allButtons s)[nat ident := turn s]) \<in> Num ` {1, 2, 3, 4}"
      by auto
  qed
  show "getWinnerString (Num 1) = ''Player 1 wins!''"
    and "getWinnerString (Num 2) = ''Player 2 wins!''"
    and "getWinnerString (Num 3) = ''Player 3 wins!''"
    and "getWinnerString (Num 4) = ''Player 4 wins!''"
    by (rule getWinnerString_players)+
  show "DEFAULT_WINNER_TEXT = ''No one has won yet.''"
    by (rule DEFAULT_WINNER_TEXT_def)
qed

text \<open>
  A legal game of eighteen moves after which player 3 is to move: the move on cell 14
  completes the third row and wins, the move on cell 22 does not win, and the click on
  the occupied cell 0 is rejected and leaves the turn.
\<close>

theorem placeMarker_accepted_status_and_turn_witness:
  "run App [PlaceMarker 0, PlaceMarker 5, PlaceMarker 10, PlaceMarker 15,
            PlaceMarker 1, PlaceMarker 6, PlaceMarker 11, PlaceMarker 16,
            PlaceMarker 2, PlaceMarker 7, PlaceMarker 12, PlaceMarker 17,
            PlaceMarker 3, PlaceMarker 8, PlaceMarker 13, PlaceMarker 18,
            PlaceMarker 20, PlaceMarker 21] =
     \<lparr>turn = 3, winner = DEFAULT_WINNER_TEXT,
       allButtons = [1, 1, 1, 1, 9, 2, 2, 2, 2, 9, 3, 3, 3, 3, 9, 4, 4, 4, 4, 9, 1, 2, 9, 9, 9]\<rparr> \<and>
   at [1, 1, 1, 1, 9, 2, 2, 2, 2, 9, 3, 3, 3, 3, 9, 4, 4, 4, 4, 9, 1, 2, 9, 9, 9] 14 = Num 9 \<and>
   displayWinner [1, 1, 1, 1, 9, 2, 2, 2, 2, 9, 3, 3, 3, 3, 3, 4, 4, 4, 4, 9, 1, 2, 9, 9, 9] = Num 3 \<and>
   turn (fst (placeMarker 14 \<lparr>turn = 3, winner = DEFAULT_WINNER_TEXT,
       allButtons = [1, 1, 1, 1, 9, 2, 2, 2, 2, 9, 3, 3, 3, 3, 9, 4, 4, 4, 4, 9, 1, 2, 9, 9, 9]\<rparr>)) = 4 \<and>
   winner (fst (placeMarker 14 \<lparr>turn = 3, winner = DEFAULT_WINNER_TEXT,
       allButtons = [1, 1, 1, 1, 9, 2, 2, 2, 2, 9, 3, 3, 3, 3, 9, 4, 4, 4, 4, 9, 1, 2, 9, 9, 9]\<rparr>)) =
     ''Player 3 wins!'' \<and>
   snd (placeMarker 14 \<lparr>turn = 3, winner = DEFAULT_WINNER_TEXT,
       allButtons = [1, 1, 1, 1, 9, 2, 2, 2, 2, 9, 3, 3, 3, 3, 9, 4, 4, 4, 4, 9, 1, 2, 9, 9, 9]\<rparr>) =
     [LaunchFireworks, PlayWin] \<and>
   invariant \<lparr>turn = 3, winner = DEFAULT_WINNER_TEXT,
       allButtons = [1, 1, 1, 1, 9, 2, 2, 2, 2, 9, 3, 3, 3, 3, 9, 4, 4, 4, 4, 9, 1, 2, 9, 9, 9]\<rparr> \<and>
   displayWinner [1, 1, 1, 1, 9, 2, 2, 2, 2, 9, 3, 3, 3, 3, 3, 4, 4, 4, 4, 9, 1, 2, 9, 9, 9]
     \<in> Num ` {1, 2, 3, 4} \<and>
   at [1, 1, 1, 1, 9, 2, 2, 2, 2, 9, 3, 3, 3, 3, 9, 4, 4, 4, 4, 9, 1, 2, 9, 9, 9] 22 = Num 9 \<and>
   displayWinner [1, 1, 1, 1, 9, 2, 2, 2, 2, 9, 3, 3, 3, 3, 9, 4, 4, 4, 4, 9, 1, 2, 3, 9, 9] = Null \<and>
   turn (fst (placeMarker 22 \<lparr>turn = 3, winner = DEFAULT_WINNER_TEXT,
       allButtons = [1, 1, 1, 1, 9, 2, 2, 2, 2, 9, 3, 3, 3, 3, 9, 4, 4, 4, 4, 9, 1, 2, 9, 9, 9]\<rparr>)) = 4 \<and>
   winner (fst (placeMarker 22 \<lparr>turn = 3, winner = DEFAULT_WINNER_TEXT,
       allButtons = [1, 1, 1, 1, 9, 2, 2, 2, 2, 9, 3, 3, 3, 3, 9, 4, 4, 4, 4, 9, 1, 2, 9, 9, 9]\<rparr>)) =
     DEFAULT_WINNER_TEXT \<and>
   snd (placeMarker 22 \<lparr>turn = 3, winner = DEFAULT_WINNER_TEXT,
       allButtons = [1, 1, 1, 1, 9, 2, 2, 2, 2, 9, 3, 3, 3, 3, 9, 4, 4, 4, 4, 9, 1, 2, 9, 9, 9]\<rparr>) =
     [PlayClick] \<and>
   at [1, 1, 1, 1, 9, 2, 2, 2, 2, 9, 3, 3, 3, 3, 9, 4, 4, 4, 4, 9, 1, 2, 9, 9, 9] 0 = Num 1 \<and>
   turn (fst (placeMarker 0 \<lparr>turn = 3, winner = DEFAULT_WINNER_TEXT,
       allButtons = [1, 1, 1, 1, 9, 2, 2, 2, 2, 9, 3, 3, 3, 3, 9, 4, 4, 4, 4, 9, 1, 2, 9, 9, 9]\<rparr>)) = 3"
proof -
  let ?g = "[1, 1, 1, 1, 9, 2, 2, 2, 2, 9, 3, 3, 3, 3, 9, 4, 4, 4, 4, 9, 1, 2, 9, 9, 9::int]"
  let ?s = "\<lparr>turn = 3, winner = DEFAULT_WINNER_TEXT, allButtons = ?g\<rparr>"
  have r: "run App [PlaceMarker 0, PlaceMarker 5, PlaceMarker 10, PlaceMarker 15,
            PlaceMarker 1, PlaceMarker 6, PlaceMarker 11, PlaceMarker 16,
            PlaceMarker 2, PlaceMarker 7, PlaceMarker 12, PlaceMarker 17,
            PlaceMarker 3, PlaceMarker 8, PlaceMarker 13, PlaceMarker 18,
            PlaceMarker 20, PlaceMarker 21] = ?s"
    by code_simp
  have e14: "at ?g 14 = Num 9" and e22: "at ?g 22 = Num 9" and o0: "at ?g 0 = Num 1"
    by (simp_all add: at_def)
  have w14: "displayWinner [1, 1, 1, 1, 9, 2, 2, 2, 2, 9, 3, 3, 3, 3, 3, 4, 4, 4, 4, 9, 1, 2, 9, 9, 9] = Num 3"
    by code_simp
  have w22: "displayWinner [1, 1, 1, 1, 9, 2, 2, 2, 2, 9, 3, 3, 3, 3, 9, 4, 4, 4, 4, 9, 1, 2, 3, 9, 9] = Null"
    by code_simp
  have inv: "invariant ?s"
    by code_simp
  have h14: "at (allButtons ?s) 14 = Num EMPTY_CELL_VALUE \<and> winner ?s = DEFAULT_WINNER_TEXT"
    and h22: "at (allButtons ?s) 22 = Num EMPTY_CELL_VALUE \<and> winner ?s = DEFAULT_WINNER_TEXT"
    using e14 e22 by (simp_all add: EMPTY_CELL_VALUE_def)
  have n0: "\<not> (at (allButtons ?s) 0 = Num EMPTY_CELL_VALUE \<and> winner ?s = DEFAULT_WINNER_TEXT)"
    using o0 by (simp add: EMPTY_CELL_VALUE_def)
  note i14 = placeMarker_accepted_status_and_turn [of ?s 14]
  note i22 = placeMarker_accepted_status_and_turn [of ?s 22]
  note i0 = placeMarker_accepted_status_and_turn [of ?s 0]
  from i14 h14 w14
  have a: "turn (fst (placeMarker 14 ?s)) = 4 \<and>
           winner (fst (placeMarker 14 ?s)) = ''Player 3 wins!'' \<and>
           snd (placeMarker 14 ?s) = [LaunchFireworks, PlayWin]"
    by (simp add: incrementTurn_def FIRST_PLAYER_def SECOND_PLAYER_def THIRD_PLAYER_def
        FOURTH_PLAYER_def)
  from i14 inv h14 w14
  have d: "displayWinner [1, 1, 1, 1, 9, 2, 2, 2, 2, 9, 3, 3, 3, 3, 3, 4, 4, 4, 4, 9, 1, 2, 9, 9, 9]
     \<in> Num ` {1, 2, 3, 4}"
    by simp
  from i22 h22 w22
  have b: "turn (fst (placeMarker 22 ?s)) = 4 \<and>
           winner (fst (placeMarker 22 ?s)) = DEFAULT_WINNER_TEXT \<and>
           snd (placeMarker 22 ?s) = [PlayClick]"
    by (simp add: incrementTurn_def FIRST_PLAYER_def SECOND_PLAYER_def THIRD_PLAYER_def
        FOURTH_PLAYER_def)
  from i0 n0 have "turn (fst (placeMarker 0 ?s)) = turn ?s"
    by blast
  then have c: "turn (fst (placeMarker 0 ?s)) = 3"
    by simp
  from r e14 e22 o0 w14 w22 inv a b c d show ?thesis by blast
qed

text \<open>
  Claim C3. The win scan is a total function (each of its loops terminates, which the
  definitions above prove) and on a well-formed grid of 25 cells: the check of a line
  returns a value \<open>p\<close> exactly when all five cells of the line hold \<open>p\<close> and \<open>p\<close> is not
  the empty value, and otherwise returns \<open>null\<close>; the scan returns \<open>null\<close> or a player
  among 1, 2, 3, 4, never the empty value, and returns \<open>null\<close> exactly when no line is
  won. The all-empty grid gives \<open>null\<close>, and a line with two cells that differ (four
  matching cells and one other, or empty, cell in particular) gives \<open>null\<close> for that
  line.
\<close>

theorem win_scan_total_and_sound:
  "(wellFormed g \<longrightarrow>
      (\<forall>l\<in>set specLines. \<forall>p.
          checkWinnerBatch (cells g l) = Num p \<longleftrightarrow>
            p \<noteq> EMPTY_CELL_VALUE \<and> (\<forall>i\<in>set l. g ! i = p)) \<and>
      (\<forall>l\<in>set specLines.
          checkWinnerBatch (cells g l) = Null \<or>
          checkWinnerBatch (cells g l) \<in> Num ` {1, 2, 3, 4}) \<and>
      displayWinner g = firstTruthy (map (\<lambda>l. checkWinnerBatch (cells g l)) specLines) \<and>
      displayWinner g \<noteq> Num EMPTY_CELL_VALUE \<and>
      (displayWinner g = Null \<or> displayWinner g \<in> Num ` {1, 2, 3, 4}) \<and>
      (displayWinner g = Null \<longleftrightarrow> (\<forall>l\<in>set specLines. \<not> specWon g l))) \<and>
   displayWinner (replicate PLAYGROUND_SIZE EMPTY_CELL_VALUE) = Null \<and>
   (length batch = GRID_SIZE \<and> i < GRID_SIZE \<and> j < GRID_SIZE \<and> batch ! i \<noteq> batch ! j
      \<longrightarrow> checkWinnerBatch batch = Null)"
proof (intro conjI impI)
  assume wf: "wellFormed g"
  show "\<forall>l\<in>set specLines. \<forall>p.
          checkWinnerBatch (cells g l) = Num p \<longleftrightarrow>
            p \<noteq> EMPTY_CELL_VALUE \<and> (\<forall>i\<in>set l. g ! i = p)"
  proof (intro ballI allI)
    fix l p
    assume "l \<in> set specLines"
    then have "cells g l \<noteq> []"
      using specLines_bounds by (auto simp: cells_def)
    then show "checkWinnerBatch (cells g l) = Num p \<longleftrightarrow>
            p \<noteq> EMPTY_CELL_VALUE \<and> (\<forall>i\<in>set l. g ! i = p)"
      by (simp add: checkWinnerBatch_Num) (simp add: cells_def)
  qed
  show "\<forall>l\<in>set specLines.
          checkWinnerBatch (cells g l) = Null \<or>
          checkWinnerBatch (cells g l) \<in> Num ` {1, 2, 3, 4}"
  proof
    fix l
    assume l: "l \<in> set specLines"
    then have ne: "l \<noteq> []" using specLines_bounds by blast
    show "checkWinnerBatch (cells g l) = Null \<or>
          checkWinnerBatch (cells g l) \<in> Num ` {1, 2, 3, 4}"
      using specWon_player [OF wf l] by (simp add: checkWinnerBatch_cells [OF ne])
  qed
  show lines: "displayWinner g = firstTruthy (map (\<lambda>l. checkWinnerBatch (cells g l)) specLines)"
    by (rule displayWinner_lines [OF wellFormed_length [OF wf]])
  have scan: "displayWinner g = (case specScan g of None \<Rightarrow> Null | Some p \<Rightarrow> Num p)"
    by (rule displayWinner_specScan [OF wf])
  have some: "p \<in> {1, 2, 3, 4}" if "specScan g = Some p" for p
  proof -
    from that obtain l where f: "find (specWon g) specLines = Some l" and p: "p = g ! hd l"
      by (auto simp: specScan_def split: option.splits)
    from f obtain k where "k < length specLines" and "specWon g (specLines ! k)"
      and "l = specLines ! k"
      unfolding find_Some_iff by blast
    then have "l \<in> set specLines" and "specWon g l"
      by simp_all
    with specWon_player [OF wf] p show ?thesis by blast
  qed
  show "displayWinner g \<noteq> Num EMPTY_CELL_VALUE"
  proof (cases "specScan g")
    case None
    then show ?thesis by (simp add: scan)
  next
    case (Some p)
    with some [OF Some] show ?thesis
      by (auto simp: scan EMPTY_CELL_VALUE_def)
  qed
  show "displayWinner g = Null \<or> displayWinner g \<in> Num ` {1, 2, 3, 4}"
  proof (cases "specScan g")
    case None
    then show ?thesis by (simp add: scan)
  next
    case (Some p)
    with some [OF Some] show ?thesis
      by (simp add: scan)
  qed
  have "displayWinner g = Null \<longleftrightarrow> specScan g = None"
    by (simp add: scan split: option.splits)
  also have "\<dots> \<longleftrightarrow> find (specWon g) specLines = None"
    by (simp add: specScan_def split: option.splits)
  also have "\<dots> \<longleftrightarrow> (\<forall>l\<in>set specLines. \<not> specWon g l)"
    unfolding find_None_iff by blast
  finally show "displayWinner g = Null \<longleftrightarrow> (\<forall>l\<in>set specLines. \<not> specWon g l)" .
next
  show "displayWinner (replicate PLAYGROUND_SIZE EMPTY_CELL_VALUE) = Null"
    by code_simp
next
  assume "length batch = GRID_SIZE \<and> i < GRID_SIZE \<and> j < GRID_SIZE \<and> batch ! i \<noteq> batch ! j"
  then show "checkWinnerBatch batch = Null"
    by (intro checkWinnerBatch_differ [of i batch j]) simp_all
qed

text \<open>
  A grid whose first column is won by player 3 and whose second row has four cells of
  player 1 after a cell of player 3; and a batch of four cells of player 1 followed by an
  empty cell.
\<close>

theorem win_scan_total_and_sound_witness:
  "wellFormed [3, 9, 9, 9, 9, 3, 1, 1, 1, 1, 3, 9, 9, 9, 9, 3, 9, 9, 9, 9, 3, 9, 9, 9, 9] \<and>
   checkWinnerBatch (cells [3, 9, 9, 9, 9, 3, 1, 1, 1, 1, 3, 9, 9, 9, 9, 3, 9, 9, 9, 9, 3, 9, 9, 9, 9]
     [0, 5, 10, 15, 20]) = Num 3 \<and>
   checkWinnerBatch (cells [3, 9, 9, 9, 9, 3, 1, 1, 1, 1, 3, 9, 9, 9, 9, 3, 9, 9, 9, 9, 3, 9, 9, 9, 9]
     [5, 6, 7, 8, 9]) = Null \<and>
   displayWinner [3, 9, 9, 9, 9, 3, 1, 1, 1, 1, 3, 9, 9, 9, 9, 3, 9, 9, 9, 9, 3, 9, 9, 9, 9] = Num 3 \<and>
   checkWinnerBatch [Num 1, Num 1, Num 1, Num 1, Num 9] = Null"
proof -
  let ?g = "[3, 9, 9, 9, 9, 3, 1, 1, 1, 1, 3, 9, 9, 9, 9, 3, 9, 9, 9, 9, 3, 9, 9, 9, 9::int]"
  let ?b = "[Num 1, Num 1, Num 1, Num 1, Num 9]"
  have wf: "wellFormed ?g"
    by code_simp
  have col: "checkWinnerBatch (cells ?g [0, 5, 10, 15, 20]) = Num 3"
    by code_simp
  have row: "checkWinnerBatch (cells ?g [5, 6, 7, 8, 9]) = Null"
    by code_simp
  have diff: "length ?b = GRID_SIZE \<and> (0::nat) < GRID_SIZE \<and> (4::nat) < GRID_SIZE \<and> ?b ! 0 \<noteq> ?b ! 4"
    by (simp add: GRID_SIZE_def)
  note inst = win_scan_total_and_sound [where g = ?g and batch = ?b and i = 0 and j = 4]
  from inst wf
  have "displayWinner ?g = firstTruthy (map (\<lambda>l. checkWinnerBatch (cells ?g l)) specLines)"
    by blast
  then have scan: "displayWinner ?g = Num 3"
    by (simp add: specLines_explicit cells_def checkWinnerBatch_def EMPTY_CELL_VALUE_def)
  from inst diff have "checkWinnerBatch ?b = Null"
    by blast
  with wf col row scan show ?thesis by blast
qed

text \<open>
  Claim C4. On every well-formed grid, also one with several won lines at once, the
  scan returns the value of the first won line in the order rows ascending, columns
  ascending, main diagonal, anti-diagonal (the order of \<open>specLines\<close>), whatever the
  later lines hold, and \<open>null\<close> when no line is won.
\<close>

theorem displayWinner_first_won_line:
  assumes "wellFormed g"
  shows "displayWinner g = (case specScan g of None \<Rightarrow> Null | Some p \<Rightarrow> Num p) \<and>
         (\<forall>k. k < length specLines \<and> specWon g (specLines ! k) \<and>
               (\<forall>j<k. \<not> specWon g (specLines ! j))
               \<longrightarrow> displayWinner g = Num (g ! hd (specLines ! k))) \<and>
         ((\<forall>k<length specLines. \<not> specWon g (specLines ! k)) \<longrightarrow> displayWinner g = Null)"
proof (intro conjI allI impI)
  show scan: "displayWinner g = (case specScan g of None \<Rightarrow> Null | Some p \<Rightarrow> Num p)"
    by (rule displayWinner_specScan [OF assms])
  {
    fix k
    assume "k < length specLines \<and> specWon g (specLines ! k) \<and>
            (\<forall>j<k. \<not> specWon g (specLines ! j))"
    then have "find (specWon g) specLines = Some (specLines ! k)"
      unfolding find_Some_iff by blast
    then show "displayWinner g = Num (g ! hd (specLines ! k))"
      by (simp add: scan specScan_def)
  }
  assume "\<forall>k<length specLines. \<not> specWon g (specLines ! k)"
  then have "\<not> (\<exists>l. l \<in> set specLines \<and> specWon g l)"
    by (auto simp: in_set_conv_nth)
  then have "find (specWon g) specLines = None"
    unfolding find_None_iff .
  then show "displayWinner g = Null"
    by (simp add: scan specScan_def)
qed

text \<open>
  A grid built directly, with the second row won by player 2 and the fourth by player 4,
  and the all-empty grid.
\<close>

theorem displayWinner_first_won_line_witness:
  "wellFormed [9, 9, 9, 9, 9, 2, 2, 2, 2, 2, 9, 9, 9, 9, 9, 4, 4, 4, 4, 4, 9, 9, 9, 9, 9] \<and>
   \<not> specWon [9, 9, 9, 9, 9, 2, 2, 2, 2, 2, 9, 9, 9, 9, 9, 4, 4, 4, 4, 4, 9, 9, 9, 9, 9] (specLines ! 0) \<and>
   specWon [9, 9, 9, 9, 9, 2, 2, 2, 2, 2, 9, 9, 9, 9, 9, 4, 4, 4, 4, 4, 9, 9, 9, 9, 9] (specLines ! 1) \<and>
   specWon [9, 9, 9, 9, 9, 2, 2, 2, 2, 2, 9, 9, 9, 9, 9, 4, 4, 4, 4, 4, 9, 9, 9, 9, 9] (specLines ! 3) \<and>
   specScan [9, 9, 9, 9, 9, 2, 2, 2, 2, 2, 9, 9, 9, 9, 9, 4, 4, 4, 4, 4, 9, 9, 9, 9, 9] = Some 2 \<and>
   displayWinner [9, 9, 9, 9, 9, 2, 2, 2, 2, 2, 9, 9, 9, 9, 9, 4, 4, 4, 4, 4, 9, 9, 9, 9, 9] = Num 2 \<and>
   wellFormed (replicate 25 9) \<and>
   list_all (\<lambda>l. \<not> specWon (replicate 25 9) l) specLines \<and>
   displayWinner (replicate 25 9) = Null"
proof -
  let ?g = "[9, 9, 9, 9, 9, 2, 2, 2, 2, 2, 9, 9, 9, 9, 9, 4, 4, 4, 4, 4, 9, 9, 9, 9, 9::int]"
  let ?e = "replicate 25 (9::int)"
  have wf: "wellFormed ?g" and wfe: "wellFormed ?e"
    by code_simp+
  have r0: "\<not> specWon ?g (specLines ! 0)"
    and r1: "specWon ?g (specLines ! 1)" and r3: "specWon ?g (specLines ! 3)"
    by code_simp+
  have sc: "specScan ?g = Some 2"
    by code_simp
  have k: "1 < length specLines" and v: "?g ! hd (specLines ! 1) = 2"
    by code_simp+
  have none: "list_all (\<lambda>l. \<not> specWon ?e l) specLines"
    by code_simp
  from r0 have before: "\<forall>j<1. \<not> specWon ?g (specLines ! j)"
    by simp
  from displayWinner_first_won_line [OF wf] k r1 before
  have "displayWinner ?g = Num (?g ! hd (specLines ! 1))"
    by blast
  with v have first: "displayWinner ?g = Num 2"
    by simp
  from none have "\<forall>k<length specLines. \<not> specWon ?e (specLines ! k)"
    by (simp add: list_all_length)
  with displayWinner_first_won_line [OF wfe] have "displayWinner ?e = Null"
    by blast
  with wf wfe r0 r1 r3 sc first none show ?thesis by blast
qed



end
